theory Spec2Isabelle
  imports Complex_Main "HOL-Library.Sublist" "HOL-Library.Log_Nat"
begin

section \<open>Cell values and tables\<close>

text \<open>
  A cell of a DataFrame holds a boolean, a string, a number or nothing (\<open>NaN\<close>/\<open>None\<close>).
  A number is given by its exact value, a rational. Strings are lists of characters with
  codes below 256.
\<close>

datatype val = VBool bool | VStr string | VNum rat | VMissing

text \<open>
  A DataFrame is stored by column: the length of its row index and the ordered list of
  its named columns, each holding one value per row.
\<close>

record table =
  nrows :: nat
  cols :: "(string \<times> val list) list"

definition colnames :: "table \<Rightarrow> string list" where
  "colnames df = map fst (cols df)"

text \<open>
  The tables of the data model: rows are mappings from column name to value, so the column
  names are distinct, and every column has one value for each row of the index.
\<close>

definition wf_table :: "table \<Rightarrow> bool" where
  "wf_table df \<longleftrightarrow>
     distinct (colnames df) \<and> list_all (\<lambda>c. length (snd c) = nrows df) (cols df)"

datatype error = KeyError "string list"

text \<open>\<open>df.drop(columns=names, errors='ignore')\<close>: every column carrying one of the labels
  goes, labels that name no column are skipped, the result is a new frame.\<close>

definition drop_columns :: "table \<Rightarrow> string list \<Rightarrow> table" where
  "drop_columns df names = df\<lparr>cols := filter (\<lambda>c. fst c \<notin> set names) (cols df)\<rparr>"

section \<open>remove_high_missing_columns\<close>

definition isnull :: "val \<Rightarrow> bool" where
  "isnull v = (v = VMissing)"

text \<open>
  The float64 quotient of two counts, as \<open>the_sum / count\<close> computes it inside
  \<open>mean()\<close>: the double nearest to \<open>k / n\<close>, a tie going to the even significand.
  Both counts are exact as floats (they are below \<open>2 ^ 53\<close> in any frame), and for
  \<open>0 < k \<le> n\<close> the quotient is in the normal range. The shift \<open>s\<close> is the one
  that brings \<open>k * 2 ^ s / n\<close> into \<open>[2 ^ 52, 2 ^ 53)\<close>, so that the rounded
  quotient \<open>m\<close> is the 53-bit significand. The result is the exact value of the double.
\<close>

definition float64_div :: "nat \<Rightarrow> nat \<Rightarrow> rat" where
  "float64_div k n =
     (if k = 0 then 0
      else
        (let s0 = 52 + floorlog 2 n - floorlog 2 k;
             s = (if k * 2 ^ s0 < 2 ^ 52 * n then s0 + 1 else s0);
             q = (k * 2 ^ s) div n;
             r = (k * 2 ^ s) mod n;
             m = (if n < 2 * r \<or> (2 * r = n \<and> odd q) then q + 1 else q)
         in of_nat m / 2 ^ s))"

text \<open>\<open>Series.mean()\<close> of a boolean column: the float64 quotient of the number of
  \<open>True\<close> by the length; on an empty column the result is \<open>NaN\<close>, here \<open>None\<close>,
  and nothing is raised.\<close>

definition mean_bool :: "bool list \<Rightarrow> rat option" where
  "mean_bool bs =
     (if bs = [] then None
      else Some (float64_div (length (filter (\<lambda>b. b) bs)) (length bs)))"

text \<open>\<open>df.isnull().mean()\<close>: one proportion per column, indexed by the column's label.\<close>

definition missing_proportion :: "table \<Rightarrow> (string \<times> rat option) list" where
  "missing_proportion df = map (\<lambda>c. (fst c, mean_bool (map isnull (snd c)))) (cols df)"

text \<open>\<open>p > threshold\<close> on floats: a comparison with \<open>NaN\<close> is false, and two
  floats compare as their exact values do. The threshold is the exact value of the float
  that was passed: the literal \<open>0.9\<close> is the double nearest to \<open>9 / 10\<close>, which is
  \<open>float64_div 9 10\<close>.\<close>

definition exceeds :: "rat option \<Rightarrow> rat \<Rightarrow> bool" where
  "exceeds p threshold = (case p of None \<Rightarrow> False | Some r \<Rightarrow> threshold < r)"

definition columns_to_drop :: "table \<Rightarrow> rat \<Rightarrow> string list" where
  "columns_to_drop df threshold =
     map fst (filter (\<lambda>e. exceeds (snd e) threshold) (missing_proportion df))"

text \<open>The function returns the new frame; the second component is the list it prints.\<close>

definition remove_high_missing_columns :: "table \<Rightarrow> rat \<Rightarrow> table \<times> string list" where
  "remove_high_missing_columns df threshold =
     (let dropped = columns_to_drop df threshold
      in (drop_columns df dropped, dropped))"

section \<open>String operations of Python used by combine_columns\<close>

text \<open>The characters \<open>str.strip()\<close> removes: those for which \<open>str.isspace\<close> holds,
  below code 256 the codes 9 to 13, 28 to 32, 133 and 160.\<close>

definition isspace :: "char \<Rightarrow> bool" where
  "isspace c \<longleftrightarrow>
     c \<in> set [CHR 0x09, CHR 0x0A, CHR 0x0B, CHR 0x0C, CHR 0x0D,
               CHR 0x1C, CHR 0x1D, CHR 0x1E, CHR 0x1F, CHR 0x20, CHR 0x85, CHR 0xA0]"

definition strip :: "string \<Rightarrow> string" where
  "strip s = rev (dropWhile isspace (rev (dropWhile isspace s)))"

text \<open>\<open>s.split(sep)\<close> for a one-character separator: never an empty list.\<close>

fun split_chr :: "char \<Rightarrow> string \<Rightarrow> string list" where
  "split_chr sep [] = [[]]"
| "split_chr sep (c # cs) =
     (if c = sep then [] # split_chr sep cs
      else (case split_chr sep cs of
              [] \<Rightarrow> [[c]]
            | w # ws \<Rightarrow> (c # w) # ws))"

text \<open>\<open>s.replace(c, '')\<close> for a one-character \<open>c\<close>.\<close>

definition remove_chr :: "char \<Rightarrow> string \<Rightarrow> string" where
  "remove_chr c s = filter (\<lambda>x. x \<noteq> c) s"

text \<open>\<open>separator.join(parts)\<close>.\<close>

fun join :: "string \<Rightarrow> string list \<Rightarrow> string" where
  "join sep [] = []"
| "join sep [x] = x"
| "join sep (x # y # ys) = x @ sep @ join sep (y # ys)"

section \<open>combine_columns\<close>

text \<open>\<open>value == True\<close>: true for the boolean \<open>True\<close> and, as Python compares numbers, for
  a number equal to 1; false for strings and for missing values.\<close>

definition eq_True :: "val \<Rightarrow> bool" where
  "eq_True value = (case value of VBool b \<Rightarrow> b | VNum x \<Rightarrow> x = 1 | _ \<Rightarrow> False)"

definition isinstance_str :: "val \<Rightarrow> bool" where
  "isinstance_str value = (case value of VStr _ \<Rightarrow> True | _ \<Rightarrow> False)"

text \<open>\<open>str(value)\<close> is the identity on strings. The comprehension below passes a value to it
  only after \<open>isinstance(value, str)\<close> has held, so the text of other values is never read;
  it is left empty here.\<close>

definition py_str :: "val \<Rightarrow> string" where
  "py_str value = (case value of VStr s \<Rightarrow> s | _ \<Rightarrow> [])"

text \<open>The inner function: \<open>zip\<close> pairs the group's names with the row's values and stops at
  the shorter of the two.\<close>

definition get_positive_responses :: "string list \<Rightarrow> val list \<Rightarrow> string list" where
  "get_positive_responses columns_to_combine row =
     map (\<lambda>(col, value).
            if eq_True value
            then strip (remove_chr (CHR '')'') (last (split_chr (CHR ''('') col)))
            else strip (py_str value))
         (filter (\<lambda>(col, value).
                    eq_True value \<or> (isinstance_str value \<and> strip (py_str value) \<noteq> []))
                 (zip columns_to_combine row))"

text \<open>\<open>df[names]\<close> with a list of labels: \<open>KeyError\<close> when a label names no column,
  otherwise the frame of the columns carrying each label, in the order of the list.\<close>

definition select_columns :: "table \<Rightarrow> string list \<Rightarrow> error + table" where
  "select_columns df names =
     (if list_all (\<lambda>n. n \<in> set (colnames df)) names
      then Inr (df\<lparr>cols := concat (map (\<lambda>n. filter (\<lambda>c. fst c = n) (cols df)) names)\<rparr>)
      else Inl (KeyError (filter (\<lambda>n. n \<notin> set (colnames df)) names)))"

text \<open>The row handed to the function by \<open>apply(..., axis=1)\<close>: the values of row \<open>i\<close>, one
  per column. Every column of a DataFrame is as long as the index, so the read is in range
  for \<open>i < nrows df\<close> on a well-formed table.\<close>

definition row_values :: "table \<Rightarrow> nat \<Rightarrow> val list" where
  "row_values df i = map (\<lambda>c. snd c ! i) (cols df)"

definition apply_rows :: "(val list \<Rightarrow> val) \<Rightarrow> table \<Rightarrow> val list" where
  "apply_rows f df = map (\<lambda>i. f (row_values df i)) [0..<nrows df]"

text \<open>\<open>df[name] = series\<close>: overwrites the column of that name where it stands, or appends
  a new last column. It changes the frame it is called on.\<close>

definition setitem :: "table \<Rightarrow> string \<Rightarrow> val list \<Rightarrow> table" where
  "setitem df name vs =
     (if name \<in> set (colnames df)
      then df\<lparr>cols := map (\<lambda>c. if fst c = name then (name, vs) else c) (cols df)\<rparr>
      else df\<lparr>cols := cols df @ [(name, vs)]\<rparr>)"

text \<open>
  The function assigns the new column to the frame it was given and then rebinds its
  local name to the frame \<open>drop\<close> builds. The result is therefore a pair: the caller's frame
  as the call leaves it, and the value returned or the exception raised.
\<close>

definition combine_columns ::
  "table \<Rightarrow> string list \<Rightarrow> string \<Rightarrow> string \<Rightarrow> table \<times> (error + table)" where
  "combine_columns df columns_to_combine new_column_name separator =
     (case select_columns df columns_to_combine of
        Inl e \<Rightarrow> (df, Inl e)
      | Inr selected \<Rightarrow>
          (let combined =
                 apply_rows (\<lambda>row. VStr (join separator
                                      (get_positive_responses columns_to_combine row)))
                            selected;
               df1 = setitem df new_column_name combined
           in (df1, Inr (drop_columns df1 columns_to_combine))))"

text \<open>Reading one cell by column name and row number.\<close>

definition cell :: "table \<Rightarrow> string \<Rightarrow> nat \<Rightarrow> val option" where
  "cell df name i =
     (case map_of (cols df) name of
        None \<Rightarrow> None
      | Some vs \<Rightarrow> if i < length vs then Some (vs ! i) else None)"

subsection \<open>The labels as the specification words them\<close>

text \<open>The qualifier of a column name: the text after its last opening parenthesis (the whole
  name when it has none), without closing parentheses, trimmed.\<close>

definition qualifier :: "string \<Rightarrow> string" where
  "qualifier col =
     strip (filter (\<lambda>c. c \<noteq> CHR '')'') (rev (takeWhile (\<lambda>c. c \<noteq> CHR ''('') (rev col))))"

text \<open>What one entry of the group contributes, as the specification states it: a true flag
  gives the qualifier, a non-empty string gives itself trimmed, anything else nothing.\<close>

definition stated_contribution :: "string \<Rightarrow> val \<Rightarrow> string option" where
  "stated_contribution col value =
     (case value of
        VBool b \<Rightarrow> if b then Some (qualifier col) else None
      | VStr s \<Rightarrow> if s \<noteq> [] then Some (strip s) else None
      | _ \<Rightarrow> None)"

text \<open>The same with the two points where the code decides otherwise: a string counts when it
  is non-empty after trimming, and a number equal to 1 counts as a true flag.\<close>

definition contribution :: "string \<Rightarrow> val \<Rightarrow> string option" where
  "contribution col value =
     (case value of
        VBool b \<Rightarrow> if b then Some (qualifier col) else None
      | VStr s \<Rightarrow> if strip s \<noteq> [] then Some (strip s) else None
      | VNum x \<Rightarrow> if x = 1 then Some (qualifier col) else None
      | VMissing \<Rightarrow> None)"

text \<open>The entries of row \<open>i\<close> for a group: each group column's name with its cell.\<close>

definition group_entries :: "table \<Rightarrow> string list \<Rightarrow> nat \<Rightarrow> (string \<times> val option) list" where
  "group_entries df columns_to_combine i = map (\<lambda>g. (g, cell df g i)) columns_to_combine"

definition selected_labels ::
  "(string \<Rightarrow> val \<Rightarrow> string option) \<Rightarrow> (string \<times> val option) list \<Rightarrow> string list" where
  "selected_labels contrib entries =
     List.map_filter (\<lambda>(g, v). case v of None \<Rightarrow> None | Some value \<Rightarrow> contrib g value) entries"

section \<open>The aggregation layer of the dashboard\<close>

text \<open>\<open>a == b\<close> between cells: booleans compare as the numbers 0 and 1, a string equals only
  the same string, and a missing value equals nothing.\<close>

definition as_number :: "val \<Rightarrow> rat option" where
  "as_number v = (case v of VBool b \<Rightarrow> Some (if b then 1 else 0) | VNum x \<Rightarrow> Some x | _ \<Rightarrow> None)"

definition py_eq :: "val \<Rightarrow> val \<Rightarrow> bool" where
  "py_eq a b =
     (case (a, b) of
        (VStr s, VStr t) \<Rightarrow> s = t
      | (VMissing, _) \<Rightarrow> False
      | (_, VMissing) \<Rightarrow> False
      | (VStr _, _) \<Rightarrow> False
      | (_, VStr _) \<Rightarrow> False
      | _ \<Rightarrow> as_number a = as_number b)"

text \<open>\<open>df[name]\<close> with one label: the column, or \<open>KeyError\<close>.\<close>

definition getitem :: "table \<Rightarrow> string \<Rightarrow> error + val list" where
  "getitem df name =
     (case map_of (cols df) name of None \<Rightarrow> Inl (KeyError [name]) | Some vs \<Rightarrow> Inr vs)"

text \<open>\<open>df[mask]\<close> with a boolean mask: the rows where the mask is true, in order.\<close>

definition filter_rows :: "table \<Rightarrow> bool list \<Rightarrow> table" where
  "filter_rows df keep =
     \<lparr>nrows = length (filter (\<lambda>b. b) keep),
      cols = map (\<lambda>c. (fst c, map snd (filter fst (zip keep (snd c))))) (cols df)\<rparr>"

text \<open>The distinct values of a column in order of first appearance, each with the number of
  its occurrences.\<close>

fun count_keys :: "val list \<Rightarrow> (val \<times> nat) list" where
  "count_keys [] = []"
| "count_keys (v # vs) =
     (v, Suc (length (filter (py_eq v) vs))) # count_keys (filter (\<lambda>w. \<not> py_eq v w) vs)"

text \<open>\<open>Series.value_counts()\<close>: missing values are left out, the buckets are sorted by
  falling count. \<open>reset_index()\<close> and the renaming of the two columns turn the result into a
  two-column frame; its rows are kept here as pairs of bucket and count.\<close>

definition value_counts :: "val list \<Rightarrow> (val \<times> nat) list" where
  "value_counts vs =
     sort_key (\<lambda>e. - int (snd e)) (count_keys (filter (\<lambda>v. \<not> isnull v) vs))"

definition column_value_counts :: "table \<Rightarrow> string \<Rightarrow> error + (val \<times> nat) list" where
  "column_value_counts df name =
     (case getitem df name of Inl e \<Rightarrow> Inl e | Inr vs \<Rightarrow> Inr (value_counts vs))"

definition favorite_coffee_counts :: "table \<Rightarrow> error + (val \<times> nat) list" where
  "favorite_coffee_counts df = column_value_counts df ''What_is_your_favorite_coffee_drink''"

definition employment_counts :: "table \<Rightarrow> error + (val \<times> nat) list" where
  "employment_counts df = column_value_counts df ''Employment_Status''"

text \<open>The callback of the age page: the frame handed to the chart, or the exception.\<close>

definition update_age_consumption :: "table \<Rightarrow> val \<Rightarrow> error + (val \<times> nat) list" where
  "update_age_consumption df selected_cups =
     (case getitem df ''How_many_cups_of_coffee_do_you_typically_drink_per_day'' of
        Inl e \<Rightarrow> Inl e
      | Inr cups \<Rightarrow>
          column_value_counts (filter_rows df (map (\<lambda>v. py_eq v selected_cups) cups))
            ''What_is_your_age'')"

text \<open>\<open>Series.isin(values)\<close>: membership, where a missing cell is found by a missing entry.\<close>

definition isin :: "val \<Rightarrow> val list \<Rightarrow> bool" where
  "isin v values = list_ex (\<lambda>x. py_eq v x \<or> (isnull v \<and> isnull x)) values"

text \<open>The callback of the political chart. \<open>not selected_affiliations\<close> holds for \<open>None\<close>
  and for the empty list: then the whole frame is counted.\<close>

definition update_political_chart :: "table \<Rightarrow> val list option \<Rightarrow> error + (val \<times> nat) list" where
  "update_political_chart df selected_affiliations =
     (case selected_affiliations of
        None \<Rightarrow> column_value_counts df ''Political_Affiliation''
      | Some [] \<Rightarrow> column_value_counts df ''Political_Affiliation''
      | Some (a # as) \<Rightarrow>
          (case getitem df ''Political_Affiliation'' of
             Inl e \<Rightarrow> Inl e
           | Inr pa \<Rightarrow>
               column_value_counts (filter_rows df (map (\<lambda>v. isin v (a # as)) pa))
                 ''Political_Affiliation''))"

section \<open>Example tables\<close>

text \<open>Ten respondents, nine of them without a note.\<close>

definition notes_table :: table where
  "notes_table =
     \<lparr>nrows = 10,
      cols = [(''Respondent'', [VNum 1, VNum 2, VNum 3, VNum 4, VNum 5,
                               VNum 6, VNum 7, VNum 8, VNum 9, VNum 10]),
              (''Notes'', [VStr ''fine'', VMissing, VMissing, VMissing, VMissing,
                          VMissing, VMissing, VMissing, VMissing, VMissing])]\<rparr>"

text \<open>A frame with two columns and no rows.\<close>

definition no_rows_table :: table where
  "no_rows_table = \<lparr>nrows = 0, cols = [(''Respondent'', []), (''Notes'', [])]\<rparr>"

text \<open>Three respondents, one of them without a note.\<close>

definition thirds_table :: table where
  "thirds_table =
     \<lparr>nrows = 3,
      cols = [(''Respondent'', [VNum 1, VNum 2, VNum 3]),
              (''Notes'', [VMissing, VStr ''a'', VStr ''b''])]\<rparr>"

text \<open>Two respondents with a group of three drink columns and one other column.\<close>

definition drinks_table :: table where
  "drinks_table =
     \<lparr>nrows = 2,
      cols = [(''Prefers (Latte)'', [VBool True, VBool True]),
              (''Prefers (Cortado)'', [VBool False, VBool True]),
              (''OtherDrink'', [VStr [], VStr ''  '']),
              (''Age'', [VStr ''25-34'', VStr ''35-44''])]\<rparr>"

definition drinks_group :: "string list" where
  "drinks_group = [''Prefers (Latte)'', ''Prefers (Cortado)'', ''OtherDrink'']"

text \<open>The table returned for \<open>drinks_table\<close>: the group has been combined and removed.\<close>

definition combined_drinks_table :: table where
  "combined_drinks_table =
     \<lparr>nrows = 2,
      cols = [(''Age'', [VStr ''25-34'', VStr ''35-44'']),
              (''Drinks'', [VStr ''Latte'', VStr ''Latte; Cortado''])]\<rparr>"

text \<open>Four survey answers with the columns the dashboard reads.\<close>

definition survey_table :: table where
  "survey_table =
     \<lparr>nrows = 4,
      cols = [(''What_is_your_age'', [VStr ''25-34'', VStr ''35-44'', VStr ''25-34'', VStr ''nan'']),
              (''How_many_cups_of_coffee_do_you_typically_drink_per_day'',
                 [VNum 1, VNum 2, VNum 1, VMissing]),
              (''Political_Affiliation'',
                 [VStr ''Independent'', VMissing, VStr ''Independent'', VStr ''No affiliation'']),
              (''What_is_your_favorite_coffee_drink'',
                 [VStr ''Latte'', VStr ''Pourover'', VMissing, VMissing])]\<rparr>"

section \<open>Properties of remove_high_missing_columns\<close>

subsection \<open>The float64 quotient\<close>

lemma float64_div_0: "float64_div 0 n = 0"
  by (simp add: float64_div_def)

lemma float64_div_1_3: "float64_div 1 3 = 6004799503160661 / 18014398509481984"
  by (simp add: float64_div_def Let_def compute_floorlog)

lemma float64_div_9_10: "float64_div 9 10 = 8106479329266893 / 9007199254740992"
  by (simp add: float64_div_def Let_def compute_floorlog)

lemma float64_div_8_10: "float64_div 8 10 = 3602879701896397 / 4503599627370496"
  by (simp add: float64_div_def Let_def compute_floorlog)

text \<open>Rounding a quotient of naturals to the nearest integer is off by at most a half.\<close>

lemma round_step:
  fixes a n :: nat
  assumes "0 < n"
  shows "\<bar>of_nat (if n < 2 * (a mod n) \<or> (2 * (a mod n) = n \<and> odd (a div n))
                   then a div n + 1 else a div n) - (of_nat a :: rat) / of_nat n\<bar> \<le> 1 / 2"
proof -
  define q where "q = a div n"
  define r where "r = a mod n"
  have a: "(of_nat a :: rat) = of_nat q * of_nat n + of_nat r"
    unfolding q_def r_def by (metis div_mult_mod_eq of_nat_add of_nat_mult)
  have rn: "r < n" unfolding r_def using assms(1) by simp
  have n0: "(of_nat n :: rat) > 0" using assms(1) by simp
  have d: "(of_nat a :: rat) / of_nat n = of_nat q + of_nat r / of_nat n"
    using n0 by (simp add: a field_simps)
  show ?thesis
  proof (cases "n < 2 * r \<or> (2 * r = n \<and> odd q)")
    case True
    then have "n \<le> 2 * r" by auto
    then have "(of_nat n :: rat) \<le> 2 * of_nat r"
      by (metis of_nat_le_iff of_nat_mult of_nat_numeral)
    moreover have "(of_nat r :: rat) < of_nat n" using rn by simp
    ultimately have b: "\<bar>1 - (of_nat r :: rat) / of_nat n\<bar> \<le> 1 / 2"
      using n0 by (simp add: field_simps abs_le_iff)
    have "(if n < 2 * (a mod n) \<or> (2 * (a mod n) = n \<and> odd (a div n))
                   then a div n + 1 else a div n) = q + 1"
      using True unfolding q_def r_def by (rule if_P)
    then show ?thesis using b by (simp add: d)
  next
    case False
    then have "2 * r \<le> n" by auto
    then have "2 * (of_nat r :: rat) \<le> of_nat n"
      by (metis of_nat_le_iff of_nat_mult of_nat_numeral)
    then have b: "\<bar>(of_nat r :: rat) / of_nat n\<bar> \<le> 1 / 2"
      using n0 by (simp add: field_simps)
    have "(if n < 2 * (a mod n) \<or> (2 * (a mod n) = n \<and> odd (a div n))
                   then a div n + 1 else a div n) = q"
      using False unfolding q_def r_def by (rule if_not_P)
    then show ?thesis using b by (simp add: d)
  qed
qed

text \<open>The float64 quotient of a part by the whole is within \<open>2 ^ -53\<close> of the exact one.\<close>

lemma float64_div_error:
  assumes "0 < n" "k \<le> n"
  shows "\<bar>float64_div k n - of_nat k / of_nat n\<bar> \<le> 1 / 2 ^ 53"
proof (cases "k = 0")
  case True
  then show ?thesis by (simp add: float64_div_def)
next
  case False
  define s0 where "s0 = 52 + floorlog 2 n - floorlog 2 k"
  define s where "s = (if k * 2 ^ s0 < 2 ^ 52 * n then s0 + 1 else s0)"
  define a where "a = k * 2 ^ s"
  define m where "m = (if n < 2 * (a mod n) \<or> (2 * (a mod n) = n \<and> odd (a div n))
                       then a div n + 1 else a div n)"
  have f: "float64_div k n = of_nat m / 2 ^ s"
    using False by (simp add: float64_div_def Let_def s0_def s_def a_def m_def)
  have "floorlog 2 k \<le> floorlog 2 n" using assms(2) by (rule floorlog_mono)
  then have "52 \<le> s0" by (simp add: s0_def)
  then have s52: "52 \<le> s" by (simp add: s_def)
  have r: "\<bar>of_nat m - (of_nat a :: rat) / of_nat n\<bar> \<le> 1 / 2"
    unfolding m_def by (rule round_step [OF assms(1)])
  have "float64_div k n - of_nat k / of_nat n = (of_nat m - (of_nat a :: rat) / of_nat n) / 2 ^ s"
    using assms(1) by (simp add: f a_def field_simps)
  then have "\<bar>float64_div k n - of_nat k / of_nat n\<bar> = \<bar>of_nat m - (of_nat a :: rat) / of_nat n\<bar> / 2 ^ s"
    by (simp add: abs_divide)
  also have "\<dots> \<le> (1 / 2) / 2 ^ s" using r by (intro divide_right_mono) auto
  also have "\<dots> = 1 / 2 ^ (Suc s)" by simp
  also have "\<dots> \<le> 1 / 2 ^ 53"
  proof -
    have "(2::rat) ^ 53 \<le> 2 ^ (Suc s)" using s52 by (intro power_increasing) auto
    then show ?thesis by (simp add: frac_le)
  qed
  finally show ?thesis .
qed

subsection \<open>Dropping columns\<close>

lemma cols_remove:
  "cols (fst (remove_high_missing_columns T t)) =
     filter (\<lambda>c. fst c \<notin> set (columns_to_drop T t)) (cols T)"
  by (simp add: remove_high_missing_columns_def drop_columns_def Let_def)

lemma nrows_remove: "nrows (fst (remove_high_missing_columns T t)) = nrows T"
  by (simp add: remove_high_missing_columns_def drop_columns_def Let_def)

lemma in_columns_to_drop:
  "n \<in> set (columns_to_drop T t) \<longleftrightarrow>
     (\<exists>vs. (n, vs) \<in> set (cols T) \<and> exceeds (mean_bool (map isnull vs)) t)"
  by (force simp: columns_to_drop_def missing_proportion_def)

lemma columns_to_drop_after:
  "columns_to_drop (drop_columns T (columns_to_drop T t)) t = []"
proof -
  have "\<not> exceeds (mean_bool (map isnull (snd c))) t"
    if "c \<in> set (cols T)" "fst c \<notin> set (columns_to_drop T t)" for c
  proof
    assume "exceeds (mean_bool (map isnull (snd c))) t"
    moreover have "(fst c, snd c) \<in> set (cols T)" using that(1) by simp
    ultimately have "fst c \<in> set (columns_to_drop T t)"
      unfolding in_columns_to_drop by blast
    with that(2) show False by contradiction
  qed
  then show ?thesis
    by (auto simp: columns_to_drop_def missing_proportion_def drop_columns_def filter_empty_conv)
qed

lemma drop_columns_Nil: "drop_columns T [] = T"
  by (simp add: drop_columns_def)

lemma mean_bool_isnull:
  "vs \<noteq> [] \<Longrightarrow>
   mean_bool (map isnull vs) = Some (float64_div (length (filter isnull vs)) (length vs))"
  by (simp add: mean_bool_def filter_map o_def)

lemma wf_length: "wf_table T \<Longrightarrow> (n, vs) \<in> set (cols T) \<Longrightarrow> length vs = nrows T"
  by (auto simp: wf_table_def list_all_iff)

lemma wf_unique:
  "wf_table T \<Longrightarrow> (n, vs) \<in> set (cols T) \<Longrightarrow> (n, ws) \<in> set (cols T) \<Longrightarrow> ws = vs"
  by (auto simp: wf_table_def colnames_def dest: eq_key_imp_eq_value)

lemma dropped_iff:
  assumes "wf_table T" "0 < nrows T" "(n, vs) \<in> set (cols T)"
  shows "n \<notin> set (colnames (fst (remove_high_missing_columns T t))) \<longleftrightarrow>
         t < float64_div (length (filter isnull vs)) (nrows T)"
proof -
  have len: "length vs = nrows T" using assms wf_length by blast
  then have ne: "vs \<noteq> []" using assms(2) by auto
  have "n \<in> set (columns_to_drop T t) \<longleftrightarrow> exceeds (mean_bool (map isnull vs)) t"
    using assms(1,3) wf_unique in_columns_to_drop by blast
  also have "\<dots> \<longleftrightarrow> t < float64_div (length (filter isnull vs)) (nrows T)"
    by (simp add: mean_bool_isnull [OF ne] exceeds_def len)
  finally have a: "n \<in> set (columns_to_drop T t) \<longleftrightarrow>
      t < float64_div (length (filter isnull vs)) (nrows T)" .
  have "n \<in> set (colnames (fst (remove_high_missing_columns T t))) \<longleftrightarrow>
        n \<notin> set (columns_to_drop T t)"
    using assms(3) by (force simp: colnames_def cols_remove)
  with a show ?thesis by blast
qed

lemma map_of_filter_fst:
  "map_of (filter (\<lambda>c. P (fst c)) xs) k = (if P k then map_of xs k else None)"
  by (induction xs) auto

lemma wf_notes_table: "wf_table notes_table"
  by (simp add: notes_table_def wf_table_def colnames_def)

lemma wf_no_rows_table: "wf_table no_rows_table"
  by (simp add: no_rows_table_def wf_table_def colnames_def)

lemma wf_thirds_table: "wf_table thirds_table"
  by (simp add: thirds_table_def wf_table_def colnames_def)

lemma mean_bool_none_missing:
  "vs \<noteq> [] \<Longrightarrow> filter isnull vs = [] \<Longrightarrow> mean_bool (map isnull vs) = Some 0"
  by (simp add: mean_bool_isnull float64_div_0)

lemma columns_to_drop_two:
  assumes "cols T = [(a, xs), (b, ys)]"
    and "mean_bool (map isnull xs) = Some 0" "mean_bool (map isnull ys) = Some p" "0 \<le> t"
  shows "columns_to_drop T t = (if t < p then [b] else [])"
  using assms by (simp add: columns_to_drop_def missing_proportion_def exceeds_def)

lemma columns_to_drop_notes: "columns_to_drop notes_table (8 / 10) = [''Notes'']"
proof -
  let ?xs = "[VNum 1, VNum 2, VNum 3, VNum 4, VNum 5, VNum 6, VNum 7, VNum 8, VNum 9, VNum 10]"
  let ?ys = "[VStr ''fine'', VMissing, VMissing, VMissing, VMissing,
              VMissing, VMissing, VMissing, VMissing, VMissing]"
  have c: "cols notes_table = [(''Respondent'', ?xs), (''Notes'', ?ys)]"
    by (simp add: notes_table_def)
  have x: "mean_bool (map isnull ?xs) = Some 0"
    by (rule mean_bool_none_missing) (simp_all add: isnull_def)
  have "mean_bool (map isnull ?ys) = Some (float64_div (length (filter isnull ?ys)) (length ?ys))"
    by (rule mean_bool_isnull) simp
  also have "length (filter isnull ?ys) = 9" by (simp add: isnull_def)
  also have "length ?ys = 10" by simp
  finally have y: "mean_bool (map isnull ?ys) = Some (8106479329266893 / 9007199254740992)"
    unfolding float64_div_9_10 .
  show ?thesis
    using columns_to_drop_two [OF c x y, of "8 / 10"] by simp
qed

lemma columns_to_drop_thirds:
  "columns_to_drop thirds_table (6004799503160661 / 18014398509481984) = []"
proof -
  let ?xs = "[VNum 1, VNum 2, VNum 3]"
  let ?ys = "[VMissing, VStr ''a'', VStr ''b'']"
  have c: "cols thirds_table = [(''Respondent'', ?xs), (''Notes'', ?ys)]"
    by (simp add: thirds_table_def)
  have x: "mean_bool (map isnull ?xs) = Some 0"
    by (rule mean_bool_none_missing) (simp_all add: isnull_def)
  have "mean_bool (map isnull ?ys) = Some (float64_div (length (filter isnull ?ys)) (length ?ys))"
    by (rule mean_bool_isnull) simp
  also have "length (filter isnull ?ys) = 1" by (simp add: isnull_def)
  also have "length ?ys = 3" by simp
  finally have y: "mean_bool (map isnull ?ys) = Some (6004799503160661 / 18014398509481984)"
    unfolding float64_div_1_3 .
  show ?thesis
    using columns_to_drop_two [OF c x y, of "6004799503160661 / 18014398509481984"] by simp
qed

text \<open>
  Claim C5, as the code has it. On a table with at least one row (and fewer than
  \<open>2 ^ 53\<close>, so that the counts are exact floats), a column is dropped exactly when the
  float64 quotient of the number of its missing values by the number of rows, which
  \<open>df.isnull().mean()\<close> computes, is strictly greater than the threshold. The exact
  ratio decides wherever it is further than \<open>2 ^ -53\<close> from the threshold: the column is
  dropped if the ratio less \<open>2 ^ -53\<close> is greater than the threshold, and only if the
  ratio plus \<open>2 ^ -53\<close> is. With 10 rows and 9 missing values the column stays at
  threshold 0.9, which is the same double as the quotient, and goes at threshold 0.8.
\<close>

theorem remove_high_missing_columns_drops_iff:
  assumes "wf_table T" "0 < nrows T" "nrows T < 2 ^ 53" "(n, vs) \<in> set (cols T)"
  shows "(n \<notin> set (colnames (fst (remove_high_missing_columns T t))) \<longleftrightarrow>
            t < float64_div (length (filter isnull vs)) (nrows T)) \<and>
         (t < of_nat (length (filter isnull vs)) / of_nat (nrows T) - 1 / 2 ^ 53 \<longrightarrow>
            n \<notin> set (colnames (fst (remove_high_missing_columns T t)))) \<and>
         (n \<notin> set (colnames (fst (remove_high_missing_columns T t))) \<longrightarrow>
            t < of_nat (length (filter isnull vs)) / of_nat (nrows T) + 1 / 2 ^ 53) \<and>
         (nrows T = 10 \<and> length (filter isnull vs) = 9 \<longrightarrow>
            n \<in> set (colnames (fst (remove_high_missing_columns T (float64_div 9 10)))) \<and>
            n \<notin> set (colnames (fst (remove_high_missing_columns T (float64_div 8 10)))))"
proof -
  let ?k = "length (filter isnull vs)"
  note d = dropped_iff [OF assms(1,2,4)]
  have "length vs = nrows T" using assms(1,4) by (rule wf_length)
  moreover have "?k \<le> length vs" by (rule length_filter_le)
  ultimately have "?k \<le> nrows T" by simp
  then have e: "\<bar>float64_div ?k (nrows T) - of_nat ?k / of_nat (nrows T)\<bar> \<le> 1 / 2 ^ 53"
    using assms(2) by (intro float64_div_error)
  have lo: "n \<notin> set (colnames (fst (remove_high_missing_columns T t)))"
    if "t < of_nat ?k / of_nat (nrows T) - 1 / 2 ^ 53"
    using that e unfolding d [of t] by linarith
  have hi: "t < of_nat ?k / of_nat (nrows T) + 1 / 2 ^ 53"
    if "n \<notin> set (colnames (fst (remove_high_missing_columns T t)))"
    using that e unfolding d [of t] by linarith
  have "float64_div 8 10 < float64_div 9 10"
    unfolding float64_div_8_10 float64_div_9_10 by simp
  then have "n \<in> set (colnames (fst (remove_high_missing_columns T (float64_div 9 10)))) \<and>
        n \<notin> set (colnames (fst (remove_high_missing_columns T (float64_div 8 10))))"
    if "nrows T = 10" "length (filter isnull vs) = 9"
    using d [of "float64_div 9 10"] d [of "float64_div 8 10"] that by simp
  with lo hi show ?thesis using d [of t] by blast
qed

theorem remove_high_missing_columns_drops_iff_witness:
  "wf_table notes_table \<and> 0 < nrows notes_table \<and> nrows notes_table < 2 ^ 53 \<and>
   (''Notes'', [VStr ''fine'', VMissing, VMissing, VMissing, VMissing,
               VMissing, VMissing, VMissing, VMissing, VMissing]) \<in> set (cols notes_table) \<and>
   ''Notes'' \<in> set (colnames (fst (remove_high_missing_columns notes_table (float64_div 9 10)))) \<and>
   ''Notes'' \<notin> set (colnames (fst (remove_high_missing_columns notes_table (float64_div 8 10))))"
proof -
  let ?vs = "[VStr ''fine'', VMissing, VMissing, VMissing, VMissing,
              VMissing, VMissing, VMissing, VMissing, VMissing]"
  have m: "(''Notes'', ?vs) \<in> set (cols notes_table)" by (simp add: notes_table_def)
  have r: "0 < nrows notes_table" "nrows notes_table = 10" "nrows notes_table < 2 ^ 53"
    by (simp_all add: notes_table_def)
  have k: "length (filter isnull ?vs) = 9" by (simp add: isnull_def)
  show ?thesis
    using remove_high_missing_columns_drops_iff [OF wf_notes_table r(1) r(3) m, of 0]
      wf_notes_table m r k
    by blast
qed

text \<open>
  The claim as stated, with the exact ratio, fails: with 3 rows and 1 missing value the
  ratio is a third, the threshold \<open>1/3\<close> as a float is the double just below a third,
  so the ratio is strictly greater than the threshold; but the quotient the code computes
  is that same double, the comparison is false and the column is kept.
\<close>

theorem remove_high_missing_columns_exact_ratio_counterexample:
  "nrows thirds_table = 3 \<and>
   (''Notes'', [VMissing, VStr ''a'', VStr ''b'']) \<in> set (cols thirds_table) \<and>
   length (filter isnull [VMissing, VStr ''a'', VStr ''b'']) = 1 \<and>
   (6004799503160661 / 18014398509481984 :: rat) < 1 / 3 \<and>
   ''Notes'' \<in> set (colnames (fst (remove_high_missing_columns thirds_table
                                       (6004799503160661 / 18014398509481984))))"
  unfolding remove_high_missing_columns_def Let_def columns_to_drop_thirds
  by (simp add: drop_columns_def thirds_table_def colnames_def isnull_def)

text \<open>
  Claim C6. Pruning is idempotent: pruning the pruned table again with the same threshold
  returns the pruned table.
\<close>

theorem remove_high_missing_columns_idempotent:
  "fst (remove_high_missing_columns (fst (remove_high_missing_columns T t)) t) =
   fst (remove_high_missing_columns T t)"
  by (simp add: remove_high_missing_columns_def Let_def columns_to_drop_after drop_columns_Nil)

theorem remove_high_missing_columns_idempotent_witness:
  "fst (remove_high_missing_columns (fst (remove_high_missing_columns notes_table (8 / 10))) (8 / 10)) =
   \<lparr>nrows = 10,
    cols = [(''Respondent'', [VNum 1, VNum 2, VNum 3, VNum 4, VNum 5,
                             VNum 6, VNum 7, VNum 8, VNum 9, VNum 10])]\<rparr>"
proof -
  have "fst (remove_high_missing_columns notes_table (8 / 10)) =
        \<lparr>nrows = 10,
         cols = [(''Respondent'', [VNum 1, VNum 2, VNum 3, VNum 4, VNum 5,
                                  VNum 6, VNum 7, VNum 8, VNum 9, VNum 10])]\<rparr>"
    unfolding remove_high_missing_columns_def Let_def columns_to_drop_notes
    by (simp add: drop_columns_def notes_table_def)
  then show ?thesis
    using remove_high_missing_columns_idempotent [of notes_table "8 / 10"] by simp
qed

text \<open>
  Claim C7. On a table with no rows the proportion of every column is undefined, the
  comparison with the threshold is false, nothing is raised and no column is dropped: the
  table comes back as it was and the printed list is empty.
\<close>

theorem remove_high_missing_columns_no_rows:
  assumes "wf_table T" "nrows T = 0"
  shows "remove_high_missing_columns T t = (T, [])"
proof -
  have "\<not> exceeds (mean_bool (map isnull (snd c))) t" if "c \<in> set (cols T)" for c
  proof -
    have "snd c = []" using assms that by (auto simp: wf_table_def list_all_iff)
    then show ?thesis by (simp add: mean_bool_def exceeds_def)
  qed
  then have "columns_to_drop T t = []"
    by (auto simp: columns_to_drop_def missing_proportion_def filter_empty_conv)
  then show ?thesis
    by (simp add: remove_high_missing_columns_def Let_def drop_columns_Nil)
qed

theorem remove_high_missing_columns_no_rows_witness:
  "wf_table no_rows_table \<and> nrows no_rows_table = 0 \<and>
   remove_high_missing_columns no_rows_table (9 / 10) = (no_rows_table, [])"
proof -
  have z: "nrows no_rows_table = 0" by (simp add: no_rows_table_def)
  show ?thesis
    using remove_high_missing_columns_no_rows [OF wf_no_rows_table z, of "9 / 10"]
      wf_no_rows_table z by simp
qed

text \<open>
  Claim C10. Pruning removes whole columns only: the number of rows is unchanged, the
  retained columns are a subsequence of the columns of the input, and every cell of a
  retained column is the cell of the input, row by row.
\<close>

theorem remove_high_missing_columns_keeps_rows:
  "nrows (fst (remove_high_missing_columns T t)) = nrows T \<and>
   subseq (cols (fst (remove_high_missing_columns T t))) (cols T) \<and>
   (\<forall>n \<in> set (colnames (fst (remove_high_missing_columns T t))). \<forall>i.
       cell (fst (remove_high_missing_columns T t)) n i = cell T n i)"
proof -
  let ?R = "fst (remove_high_missing_columns T t)"
  have c: "cols ?R = filter (\<lambda>c. fst c \<notin> set (columns_to_drop T t)) (cols T)"
    by (rule cols_remove)
  have "cell ?R n i = cell T n i" if "n \<in> set (colnames ?R)" for n i
  proof -
    from that have "n \<notin> set (columns_to_drop T t)" by (auto simp: colnames_def c)
    then have "map_of (cols ?R) n = map_of (cols T) n"
      by (simp add: c map_of_filter_fst [of "\<lambda>k. k \<notin> set (columns_to_drop T t)"])
    then show ?thesis by (simp add: cell_def)
  qed
  moreover have "subseq (cols ?R) (cols T)" by (simp add: c)
  ultimately show ?thesis by (simp add: nrows_remove)
qed

theorem remove_high_missing_columns_keeps_rows_witness:
  "''Respondent'' \<in> set (colnames (fst (remove_high_missing_columns notes_table (8 / 10)))) \<and>
   nrows (fst (remove_high_missing_columns notes_table (8 / 10))) = 10 \<and>
   cell (fst (remove_high_missing_columns notes_table (8 / 10))) ''Respondent'' 3 = Some (VNum 4)"
proof -
  have m: "''Respondent'' \<in> set (colnames (fst (remove_high_missing_columns notes_table (8 / 10))))"
    unfolding remove_high_missing_columns_def Let_def columns_to_drop_notes
    by (simp add: drop_columns_def notes_table_def colnames_def)
  have c: "cell notes_table ''Respondent'' 3 = Some (VNum 4)"
    by (simp add: notes_table_def cell_def)
  have n: "nrows notes_table = 10" by (simp add: notes_table_def)
  show ?thesis
    using remove_high_missing_columns_keeps_rows [of notes_table "8 / 10"] m c n by auto
qed

section \<open>Properties of combine_columns\<close>

lemma split_chr_ne: "split_chr s cs \<noteq> []"
  by (induction cs) (auto split: list.splits)

lemma split_chr_single: "s \<notin> set cs \<Longrightarrow> split_chr s cs = [cs]"
  by (induction cs) auto

lemma split_chr_single_conv: "split_chr s cs = [w] \<Longrightarrow> s \<notin> set cs"
  by (induction cs arbitrary: w) (auto split: list.splits if_splits simp: split_chr_ne)

lemma last_split_chr: "last (split_chr s cs) = rev (takeWhile (\<lambda>c. c \<noteq> s) (rev cs))"
proof (induction cs)
  case Nil
  then show ?case by simp
next
  case (Cons c cs)
  show ?case
  proof (cases "s \<in> set cs")
    case True
    have t: "takeWhile (\<lambda>c. c \<noteq> s) (rev cs @ [c]) = takeWhile (\<lambda>c. c \<noteq> s) (rev cs)"
      using True by (auto simp: takeWhile_append)
    obtain w ws where sp: "split_chr s cs = w # ws"
      using split_chr_ne [of s cs] by (cases "split_chr s cs") auto
    have "ws \<noteq> []" using split_chr_single_conv [of s cs w] sp True by auto
    then have "last (split_chr s (c # cs)) = last (split_chr s cs)"
      using sp by auto
    then show ?thesis using Cons t by simp
  next
    case False
    then have "split_chr s cs = [cs]" by (rule split_chr_single)
    moreover have "takeWhile (\<lambda>c. c \<noteq> s) (rev cs) = rev cs"
      using False by (auto intro: takeWhile_eq_all_conv [THEN iffD2])
    ultimately show ?thesis using False by (auto simp: takeWhile_append)
  qed
qed

lemma contribution_code:
  "contribution col v =
     (if eq_True v \<or> (isinstance_str v \<and> strip (py_str v) \<noteq> [])
      then Some (if eq_True v
                 then strip (remove_chr (CHR '')'') (last (split_chr (CHR ''('') col)))
                 else strip (py_str v))
      else None)"
  by (cases v)
     (simp_all add: contribution_def eq_True_def isinstance_str_def py_str_def qualifier_def
        remove_chr_def last_split_chr)

lemma map_filter_if:
  "(\<And>x. h x = (if p x then Some (f x) else None)) \<Longrightarrow>
   List.map_filter h xs = map f (filter p xs)"
  by (induction xs) (simp_all add: List.map_filter_simps)

lemma get_positive_responses_map_filter:
  "get_positive_responses G row = List.map_filter (\<lambda>(col, v). contribution col v) (zip G row)"
  unfolding get_positive_responses_def
  by (rule map_filter_if [symmetric]) (auto simp: contribution_code split: if_splits)

lemma filter_key_distinct:
  "distinct (map fst xs) \<Longrightarrow> g \<in> fst ` set xs \<Longrightarrow>
   filter (\<lambda>c. fst c = g) xs = [(g, the (map_of xs g))]"
proof (induction xs)
  case Nil
  then show ?case by simp
next
  case (Cons x xs)
  show ?case
  proof (cases "fst x = g")
    case True
    then have "g \<notin> fst ` set xs" using Cons.prems(1) by auto
    then have "filter (\<lambda>c. fst c = g) xs = []" by (auto simp: filter_empty_conv)
    then show ?thesis using True by (cases x) auto
  next
    case False
    then show ?thesis using Cons by (cases x) auto
  qed
qed

lemma select_columns_wf:
  assumes "wf_table T" "set G \<subseteq> set (colnames T)"
  shows "select_columns T G = Inr (T\<lparr>cols := map (\<lambda>g. (g, the (map_of (cols T) g))) G\<rparr>)"
proof -
  have d: "distinct (map fst (cols T))" using assms(1) by (simp add: wf_table_def colnames_def)
  have "concat (map (\<lambda>n. filter (\<lambda>c. fst c = n) (cols T)) G) =
        map (\<lambda>g. (g, the (map_of (cols T) g))) G"
    using assms(2)
  proof (induction G)
    case Nil
    then show ?case by simp
  next
    case (Cons g G)
    then have "g \<in> fst ` set (cols T)" by (simp add: colnames_def)
    with d have "filter (\<lambda>c. fst c = g) (cols T) = [(g, the (map_of (cols T) g))]"
      by (rule filter_key_distinct)
    with Cons show ?case by simp
  qed
  moreover have "list_all (\<lambda>n. n \<in> set (colnames T)) G"
    using assms(2) by (auto simp: list_all_iff)
  ultimately show ?thesis by (simp add: select_columns_def)
qed

lemma select_columns_missing:
  "\<not> set G \<subseteq> set (colnames T) \<Longrightarrow>
   select_columns T G = Inl (KeyError (filter (\<lambda>n. n \<notin> set (colnames T)) G))"
  by (auto simp: select_columns_def list_all_iff)

lemma cell_wf:
  assumes "wf_table T" "g \<in> set (colnames T)" "i < nrows T"
  shows "cell T g i = Some (the (map_of (cols T) g) ! i)"
proof -
  obtain vs where m: "map_of (cols T) g = Some vs"
    using assms(2) by (cases "map_of (cols T) g") (auto simp: colnames_def map_of_eq_None_iff)
  then have "(g, vs) \<in> set (cols T)" by (rule map_of_SomeD)
  then have "length vs = nrows T" using assms(1) by (auto simp: wf_table_def list_all_iff)
  then show ?thesis using m assms(3) by (simp add: cell_def)
qed

lemma selected_labels_Some:
  "selected_labels contrib (map (\<lambda>g. (g, Some (w g))) G) =
   List.map_filter (\<lambda>(col, v). contrib col v) (map (\<lambda>g. (g, w g)) G)"
  by (simp add: selected_labels_def List.map_filter_def filter_map o_def)

lemma combined_row:
  assumes "wf_table T" "set G \<subseteq> set (colnames T)" "i < nrows T"
  shows "get_positive_responses G
           (row_values (T\<lparr>cols := map (\<lambda>g. (g, the (map_of (cols T) g))) G\<rparr>) i) =
         selected_labels contribution (group_entries T G i)"
proof -
  let ?w = "\<lambda>g. the (map_of (cols T) g) ! i"
  have z: "zip G (map ?w G) = map (\<lambda>g. (g, ?w g)) G"
    by (induction G) auto
  have e: "map (\<lambda>g. (g, cell T g i)) G = map (\<lambda>g. (g, Some (?w g))) G"
    using assms cell_wf by (auto simp: subset_iff)
  have "selected_labels contribution (group_entries T G i) =
        List.map_filter (\<lambda>(col, v). contribution col v) (map (\<lambda>g. (g, ?w g)) G)"
    unfolding group_entries_def e by (rule selected_labels_Some)
  moreover have "row_values (T\<lparr>cols := map (\<lambda>g. (g, the (map_of (cols T) g))) G\<rparr>) i = map ?w G"
    by (simp add: row_values_def o_def)
  ultimately show ?thesis
    by (simp add: get_positive_responses_map_filter z)
qed

lemma nrows_setitem: "nrows (setitem T n vs) = nrows T"
  by (simp add: setitem_def)

lemma colnames_setitem:
  "colnames (setitem T n vs) = (if n \<in> set (colnames T) then colnames T else colnames T @ [n])"
proof -
  have "map fst (map (\<lambda>c. if fst c = n then (n, vs) else c) xs) = map fst xs" for xs
    by (induction xs) auto
  then show ?thesis by (simp add: setitem_def colnames_def)
qed

lemma map_of_setitem:
  "map_of (cols (setitem T n vs)) k = (if k = n then Some vs else map_of (cols T) k)"
proof -
  have a1: "n \<in> fst ` set xs \<Longrightarrow>
        map_of (map (\<lambda>c. if fst c = n then (n, vs) else c) xs) n = Some vs" for xs
    by (induction xs) auto
  have a2: "k \<noteq> n \<Longrightarrow>
        map_of (map (\<lambda>c. if fst c = n then (n, vs) else c) xs) k = map_of xs k" for xs
    by (induction xs) auto
  have b: "n \<notin> fst ` set xs \<Longrightarrow>
        map_of (xs @ [(n, vs)]) k = (if k = n then Some vs else map_of xs k)" for xs
    by (induction xs) auto
  show ?thesis
  proof (cases "n \<in> set (colnames T)")
    case True
    then show ?thesis using a1 [of "cols T"] a2 [of "cols T"]
      by (simp add: setitem_def colnames_def)
  next
    case False
    then show ?thesis using b [of "cols T"] by (simp add: setitem_def colnames_def)
  qed
qed

lemma combine_columns_missing:
  "\<not> set G \<subseteq> set (colnames T) \<Longrightarrow>
   combine_columns T G name sep = (T, Inl (KeyError (filter (\<lambda>n. n \<notin> set (colnames T)) G)))"
  by (simp add: combine_columns_def select_columns_missing)

lemma combine_columns_present:
  "set G \<subseteq> set (colnames T) \<Longrightarrow>
   \<exists>vs. length vs = nrows T \<and>
        combine_columns T G name sep =
          (setitem T name vs, Inr (drop_columns (setitem T name vs) G))"
proof -
  let ?sel = "T\<lparr>cols := concat (map (\<lambda>n. filter (\<lambda>c. fst c = n) (cols T)) G)\<rparr>"
  let ?vs = "apply_rows (\<lambda>row. VStr (join sep (get_positive_responses G row))) ?sel"
  assume "set G \<subseteq> set (colnames T)"
  then have "select_columns T G = Inr ?sel"
    by (auto simp: select_columns_def list_all_iff)
  then have "combine_columns T G name sep =
          (setitem T name ?vs, Inr (drop_columns (setitem T name ?vs) G))"
    by (simp add: combine_columns_def Let_def)
  moreover have "length ?vs = nrows T" by (simp add: apply_rows_def)
  ultimately show ?thesis by blast
qed

lemma combine_columns_wf:
  assumes "wf_table T" "set G \<subseteq> set (colnames T)"
  shows "combine_columns T G name sep =
     (let vs = map (\<lambda>i. VStr (join sep (selected_labels contribution (group_entries T G i))))
                   [0..<nrows T]
      in (setitem T name vs, Inr (drop_columns (setitem T name vs) G)))"
proof -
  let ?sel = "T\<lparr>cols := map (\<lambda>g. (g, the (map_of (cols T) g))) G\<rparr>"
  have "apply_rows (\<lambda>row. VStr (join sep (get_positive_responses G row))) ?sel =
        map (\<lambda>i. VStr (join sep (selected_labels contribution (group_entries T G i))))
            [0..<nrows T]"
    using combined_row [OF assms] by (simp add: apply_rows_def)
  then show ?thesis
    by (simp add: combine_columns_def select_columns_wf [OF assms] Let_def)
qed

lemma length_filter_keys:
  assumes "distinct (map fst xs)" "distinct G" "set G \<subseteq> fst ` set xs"
  shows "length (filter (\<lambda>c. fst c \<in> set G) xs) = length G"
proof -
  let ?ks = "filter (\<lambda>k. k \<in> set G) (map fst xs)"
  have "length (filter (\<lambda>c. fst c \<in> set G) xs) = length ?ks"
    by (simp add: filter_map o_def)
  also have "\<dots> = card (set ?ks)"
  proof -
    have "distinct ?ks" using assms(1) by (rule distinct_filter)
    then show ?thesis by (rule distinct_card [symmetric])
  qed
  also have "set ?ks = set G" using assms(3) by auto
  also have "card (set G) = length G" using assms(2) by (rule distinct_card)
  finally show ?thesis .
qed

lemma wf_drinks_table: "wf_table drinks_table"
  by (simp add: drinks_table_def wf_table_def colnames_def)

lemma drinks_group_present: "set drinks_group \<subseteq> set (colnames drinks_table)"
  by (simp add: drinks_group_def drinks_table_def colnames_def)

text \<open>
  Claim C1, as the code has it. For a table of the data model, a group whose columns are
  all in the table, a new name that is not a group column and any separator, the returned
  table holds in the new column, for every row, the join by the separator and in group
  order of the labels of the selected entries: a true flag gives the text after the last
  opening parenthesis of the column name (the whole name when there is none) with every
  closing parenthesis removed and whitespace trimmed; a string that is non-empty after
  trimming gives itself trimmed; a number equal to 1 counts as a true flag; false, other
  numbers, missing values, the empty string and strings of whitespace only give nothing.
  The value is the empty string when no entry is selected.
\<close>

theorem combine_columns_combined_value:
  assumes "wf_table T" "set G \<subseteq> set (colnames T)" "name \<notin> set G" "i < nrows T"
  shows "\<exists>R. snd (combine_columns T G name sep) = Inr R \<and>
             cell R name i =
               Some (VStr (join sep (selected_labels contribution (group_entries T G i)))) \<and>
             (selected_labels contribution (group_entries T G i) = [] \<longrightarrow>
                cell R name i = Some (VStr []))"
proof -
  let ?vs = "map (\<lambda>i. VStr (join sep (selected_labels contribution (group_entries T G i))))
                   [0..<nrows T]"
  let ?R = "drop_columns (setitem T name ?vs) G"
  have s: "snd (combine_columns T G name sep) = Inr ?R"
    by (simp add: combine_columns_wf [OF assms(1,2)] Let_def)
  have "map_of (cols ?R) name = Some ?vs"
    using assms(3)
    by (simp add: drop_columns_def map_of_filter_fst [of "\<lambda>k. k \<notin> set G"] map_of_setitem)
  then have "cell ?R name i =
        Some (VStr (join sep (selected_labels contribution (group_entries T G i))))"
    using assms(4) by (simp add: cell_def)
  then show ?thesis using s by auto
qed

theorem combine_columns_combined_value_witness:
  "wf_table drinks_table \<and> set drinks_group \<subseteq> set (colnames drinks_table) \<and>
   ''Drinks'' \<notin> set drinks_group \<and> 0 < nrows drinks_table \<and>
   (\<exists>R. snd (combine_columns drinks_table drinks_group ''Drinks'' ''; '') = Inr R \<and>
        cell R ''Drinks'' 0 = Some (VStr ''Latte''))"
proof -
  have n: "''Drinks'' \<notin> set drinks_group" by (simp add: drinks_group_def)
  have r: "0 < nrows drinks_table" by (simp add: drinks_table_def)
  have v: "join ''; '' (selected_labels contribution (group_entries drinks_table drinks_group 0)) =
           ''Latte''"
    by code_simp
  show ?thesis
    using combine_columns_combined_value [OF wf_drinks_table drinks_group_present n r, of "''; ''"]
      wf_drinks_table drinks_group_present n r
    unfolding v by blast
qed

text \<open>
  The claim as stated fails on a string of whitespace only: it is a non-empty string, so it
  would contribute its trimmed text, the empty label, and the join would end in a
  separator. The code leaves such an entry out.
\<close>

theorem combine_columns_blank_string_counterexample:
  "snd (combine_columns drinks_table drinks_group ''Drinks'' ''; '') = Inr combined_drinks_table \<and>
   cell combined_drinks_table ''Drinks'' 1 = Some (VStr ''Latte; Cortado'') \<and>
   join ''; '' (selected_labels stated_contribution (group_entries drinks_table drinks_group 1)) =
     ''Latte; Cortado; ''"
  by code_simp

text \<open>
  Claim C2. For a table of the data model, a group of distinct columns of the table and a
  new name that is not a column of the table, the call returns a table with as many rows,
  with exactly as many columns fewer as the group has and one more, the new one; the
  columns are those of the input outside the group plus the new one, and every cell of a
  column outside the group is the cell of the input.
\<close>

theorem combine_columns_column_count:
  assumes "wf_table T" "distinct G" "set G \<subseteq> set (colnames T)" "name \<notin> set (colnames T)"
  shows "\<exists>R. snd (combine_columns T G name sep) = Inr R \<and>
             length (cols R) + length G = length (cols T) + 1 \<and>
             nrows R = nrows T \<and>
             set (colnames R) = (set (colnames T) - set G) \<union> {name} \<and>
             (\<forall>n \<in> set (colnames T) - set G. \<forall>i. cell R n i = cell T n i)"
proof -
  obtain vs where cc: "combine_columns T G name sep =
          (setitem T name vs, Inr (drop_columns (setitem T name vs) G))"
    using combine_columns_present [OF assms(3)] by blast
  let ?R = "drop_columns (setitem T name vs) G"
  have ng: "name \<notin> set G" using assms(3,4) by auto
  have c: "cols ?R = filter (\<lambda>c. fst c \<notin> set G) (cols T) @ [(name, vs)]"
    using assms(4) ng by (simp add: drop_columns_def setitem_def)
  have d: "distinct (map fst (cols T))" using assms(1) by (simp add: wf_table_def colnames_def)
  have "length (filter (\<lambda>c. fst c \<in> set G) (cols T)) = length G"
    using d assms(2,3) by (intro length_filter_keys) (auto simp: colnames_def)
  moreover have "length (filter (\<lambda>c. fst c \<in> set G) (cols T)) +
                 length (filter (\<lambda>c. \<not> fst c \<in> set G) (cols T)) = length (cols T)"
    by (rule sum_length_filter_compl)
  ultimately have l: "length (cols ?R) + length G = length (cols T) + 1"
    by (simp add: c)
  have n: "nrows ?R = nrows T" by (simp add: drop_columns_def nrows_setitem)
  have k: "set (colnames ?R) = (set (colnames T) - set G) \<union> {name}"
    by (auto simp: colnames_def c)
  have "cell ?R n i = cell T n i" if "n \<in> set (colnames T) - set G" for n i
  proof -
    have "n \<noteq> name" "n \<notin> set G" using that assms(4) by auto
    then have "map_of (cols ?R) n = map_of (cols T) n"
      by (simp add: drop_columns_def map_of_filter_fst [of "\<lambda>k. k \<notin> set G"] map_of_setitem)
    then show ?thesis by (simp add: cell_def)
  qed
  with l n k show ?thesis unfolding cc by auto
qed

theorem combine_columns_column_count_witness:
  "wf_table drinks_table \<and> distinct drinks_group \<and>
   set drinks_group \<subseteq> set (colnames drinks_table) \<and>
   ''Drinks'' \<notin> set (colnames drinks_table) \<and>
   (\<exists>R. snd (combine_columns drinks_table drinks_group ''Drinks'' ''; '') = Inr R \<and>
        length (cols R) + 3 = 4 + 1 \<and>
        set (colnames R) = {''Age'', ''Drinks''} \<and>
        cell R ''Age'' 1 = Some (VStr ''35-44''))"
proof -
  have d: "distinct drinks_group" by (simp add: drinks_group_def)
  have n: "''Drinks'' \<notin> set (colnames drinks_table)"
    by (simp add: drinks_table_def colnames_def)
  have l: "length drinks_group = 3" "length (cols drinks_table) = 4"
    by (simp_all add: drinks_group_def drinks_table_def)
  have k: "set (colnames drinks_table) - set drinks_group \<union> {''Drinks''} = {''Age'', ''Drinks''}"
    by (auto simp: drinks_group_def drinks_table_def colnames_def)
  have a: "''Age'' \<in> set (colnames drinks_table) - set drinks_group"
    by (simp add: drinks_group_def drinks_table_def colnames_def)
  have c: "cell drinks_table ''Age'' 1 = Some (VStr ''35-44'')"
    by (simp add: drinks_table_def cell_def)
  obtain R where R: "snd (combine_columns drinks_table drinks_group ''Drinks'' ''; '') = Inr R"
    "length (cols R) + length drinks_group = length (cols drinks_table) + 1"
    "set (colnames R) = set (colnames drinks_table) - set drinks_group \<union> {''Drinks''}"
    "\<forall>n \<in> set (colnames drinks_table) - set drinks_group. \<forall>i. cell R n i = cell drinks_table n i"
    using combine_columns_column_count [OF wf_drinks_table d drinks_group_present n, of "''; ''"]
    by blast
  have "cell R ''Age'' 1 = Some (VStr ''35-44'')" using R(4) a c by simp
  then show ?thesis
    using R(1,2,3) wf_drinks_table d drinks_group_present n unfolding l k by blast
qed

text \<open>
  Claim C3, as the code has it. The call assigns the new column to the table it is given
  before it builds the returned one. When every group column is in the table, the input
  table afterwards has the same rows and the same columns as before except for the column
  of the new name, which is appended (or overwritten where the table had one of that name)
  and has one value per row; no column is removed from it, and the returned table is this
  table without the group columns. When a group column is absent, the call fails and the
  input table is as it was.
\<close>

theorem combine_columns_effect_on_input:
  "(\<not> set G \<subseteq> set (colnames T) \<longrightarrow> fst (combine_columns T G name sep) = T) \<and>
   (set G \<subseteq> set (colnames T) \<longrightarrow>
      nrows (fst (combine_columns T G name sep)) = nrows T \<and>
      colnames (fst (combine_columns T G name sep)) =
        (if name \<in> set (colnames T) then colnames T else colnames T @ [name]) \<and>
      (\<forall>n. n \<noteq> name \<longrightarrow>
           map_of (cols (fst (combine_columns T G name sep))) n = map_of (cols T) n) \<and>
      (\<exists>vs. map_of (cols (fst (combine_columns T G name sep))) name = Some vs \<and>
            length vs = nrows T) \<and>
      snd (combine_columns T G name sep) =
        Inr (drop_columns (fst (combine_columns T G name sep)) G))"
proof (cases "set G \<subseteq> set (colnames T)")
  case True
  then obtain vs where "length vs = nrows T" "combine_columns T G name sep =
          (setitem T name vs, Inr (drop_columns (setitem T name vs) G))"
    using combine_columns_present by blast
  then show ?thesis using True
    by (simp add: nrows_setitem colnames_setitem map_of_setitem)
next
  case False
  then show ?thesis by (simp add: combine_columns_missing)
qed

theorem combine_columns_effect_on_input_witness:
  "set drinks_group \<subseteq> set (colnames drinks_table) \<and>
   colnames (fst (combine_columns drinks_table drinks_group ''Drinks'' ''; '')) =
     colnames drinks_table @ [''Drinks''] \<and>
   map_of (cols (fst (combine_columns drinks_table drinks_group ''Drinks'' ''; ''))) ''OtherDrink'' =
     Some [VStr [], VStr ''  ''] \<and>
   \<not> set drinks_group \<subseteq> set (colnames combined_drinks_table) \<and>
   fst (combine_columns combined_drinks_table drinks_group ''Drinks'' ''; '') =
     combined_drinks_table"
proof -
  have n: "''Drinks'' \<notin> set (colnames drinks_table)"
    by (simp add: drinks_table_def colnames_def)
  have o: "map_of (cols drinks_table) ''OtherDrink'' = Some [VStr [], VStr ''  '']"
    by (simp add: drinks_table_def)
  have m: "\<not> set drinks_group \<subseteq> set (colnames combined_drinks_table)"
    by (simp add: drinks_group_def combined_drinks_table_def colnames_def)
  have e: "''OtherDrink'' \<noteq> ''Drinks''" by simp
  show ?thesis
    using combine_columns_effect_on_input [of drinks_group drinks_table "''Drinks''" "''; ''"]
      combine_columns_effect_on_input [of drinks_group combined_drinks_table "''Drinks''" "''; ''"]
      drinks_group_present n o m e
    by simp
qed

text \<open>The claim as stated fails: after the call the input table has a column more.\<close>

theorem combine_columns_mutates_input_counterexample:
  "colnames drinks_table =
     [''Prefers (Latte)'', ''Prefers (Cortado)'', ''OtherDrink'', ''Age''] \<and>
   colnames (fst (combine_columns drinks_table drinks_group ''Drinks'' ''; '')) =
     [''Prefers (Latte)'', ''Prefers (Cortado)'', ''OtherDrink'', ''Age'', ''Drinks''] \<and>
   fst (combine_columns drinks_table drinks_group ''Drinks'' ''; '') \<noteq> drinks_table"
  by code_simp

text \<open>
  Claim C4, as the code has it. When some group column is not in the table, the selection
  of the group raises \<open>KeyError\<close> naming the absent columns before anything is assigned
  or dropped: no table is returned and the input table is as it was. The call returns a
  table exactly when every group column is in the table.
\<close>

theorem combine_columns_absent_group:
  "(\<not> set G \<subseteq> set (colnames T) \<longrightarrow>
      combine_columns T G name sep =
        (T, Inl (KeyError (filter (\<lambda>g. g \<notin> set (colnames T)) G)))) \<and>
   ((\<exists>R. snd (combine_columns T G name sep) = Inr R) \<longleftrightarrow> set G \<subseteq> set (colnames T))"
proof (cases "set G \<subseteq> set (colnames T)")
  case True
  then show ?thesis using combine_columns_present [OF True, of name sep] by auto
next
  case False
  then show ?thesis by (simp add: combine_columns_missing)
qed

theorem combine_columns_absent_group_witness:
  "\<not> set drinks_group \<subseteq> set (colnames combined_drinks_table) \<and>
   combine_columns combined_drinks_table drinks_group ''Drinks'' ''; '' =
     (combined_drinks_table, Inl (KeyError drinks_group)) \<and>
   set drinks_group \<subseteq> set (colnames drinks_table) \<and>
   (\<exists>R. snd (combine_columns drinks_table drinks_group ''Drinks'' ''; '') = Inr R)"
proof -
  have m: "\<not> set drinks_group \<subseteq> set (colnames combined_drinks_table)"
    by (simp add: drinks_group_def combined_drinks_table_def colnames_def)
  have f: "filter (\<lambda>g. g \<notin> set (colnames combined_drinks_table)) drinks_group = drinks_group"
    by (simp add: drinks_group_def combined_drinks_table_def colnames_def)
  show ?thesis
    using combine_columns_absent_group [of drinks_group combined_drinks_table "''Drinks''" "''; ''"]
      combine_columns_absent_group [of drinks_group drinks_table "''Drinks''" "''; ''"]
      m f drinks_group_present
    by simp
qed

text \<open>
  The claim as stated fails: calling the function a second time, on the table the first
  call returned, raises \<open>KeyError\<close> for the group columns that no longer exist.
\<close>

theorem combine_columns_second_call_counterexample:
  "snd (combine_columns drinks_table drinks_group ''Drinks'' ''; '') = Inr combined_drinks_table \<and>
   snd (combine_columns combined_drinks_table drinks_group ''Drinks'' ''; '') =
     Inl (KeyError [''Prefers (Latte)'', ''Prefers (Cortado)'', ''OtherDrink''])"
  by code_simp

section \<open>Properties of the aggregation layer\<close>

lemma sum_count_keys: "sum_list (map snd (count_keys vs)) = length vs"
proof (induction vs rule: count_keys.induct)
  case 1
  then show ?case by simp
next
  case (2 v vs)
  have "length (filter (py_eq v) vs) + length (filter (\<lambda>w. \<not> py_eq v w) vs) = length vs"
    by (rule sum_length_filter_compl)
  with 2 show ?case by simp
qed

lemma sum_insort_key:
  "sum_list (map g (insort_key f x xs)) = (g x :: nat) + sum_list (map g xs)"
  by (induction xs) (simp_all add: add.left_commute)

lemma sum_sort_key: "sum_list (map g (sort_key f xs)) = sum_list (map (g :: 'a \<Rightarrow> nat) xs)"
  by (induction xs) (simp_all add: sum_insort_key)

lemma value_counts_total:
  "sum_list (map snd (value_counts vs)) = length (filter (\<lambda>v. \<not> isnull v) vs)"
  by (simp add: value_counts_def sum_sort_key sum_count_keys)

lemma column_value_counts_Some:
  "map_of (cols T) col = Some vs \<Longrightarrow> column_value_counts T col = Inr (value_counts vs)"
  by (simp add: column_value_counts_def getitem_def)

lemma map_of_filter_rows:
  "map_of (cols (filter_rows T keep)) k =
   map_option (\<lambda>vs. map snd (filter fst (zip keep vs))) (map_of (cols T) k)"
proof -
  have "map_of (map (\<lambda>c. (fst c, f (snd c))) xs) k = map_option f (map_of xs k)" for f and xs :: "(string \<times> val list) list"
    by (induction xs) auto
  then show ?thesis by (simp add: filter_rows_def)
qed

lemma filter_no_rows:
  assumes "list_all (\<lambda>b. \<not> b) keep"
  shows "map snd (filter fst (zip keep vs)) = []"
proof -
  have "\<not> fst x" if "x \<in> set (zip keep vs)" for x
  proof -
    obtain a b where x: "x = (a, b)" by (cases x)
    then have "a \<in> set keep" using that set_zip_leftD by fastforce
    moreover have "\<forall>k \<in> set keep. \<not> k" using assms by (simp add: list_all_iff)
    ultimately have "\<not> a" by blast
    then show ?thesis using x by simp
  qed
  then show ?thesis by (simp add: filter_empty_conv)
qed

text \<open>
  Claim C8. In the unfiltered case the counts of all buckets add up to the number of rows
  whose value in the group column is not missing: for \<open>value_counts\<close> of any column of
  the table, for the political chart called with no selection (\<open>None\<close> or the empty
  list), and for the counts of favourite drinks.
\<close>

theorem value_counts_sum_unfiltered:
  "(\<forall>col vs. map_of (cols T) col = Some vs \<longrightarrow>
      (\<exists>s. column_value_counts T col = Inr s \<and>
           sum_list (map snd s) = length (filter (\<lambda>v. \<not> isnull v) vs))) \<and>
   (\<forall>vs. map_of (cols T) ''Political_Affiliation'' = Some vs \<longrightarrow>
      (\<exists>s. update_political_chart T None = Inr s \<and>
           update_political_chart T (Some []) = Inr s \<and>
           sum_list (map snd s) = length (filter (\<lambda>v. \<not> isnull v) vs))) \<and>
   (\<forall>vs. map_of (cols T) ''What_is_your_favorite_coffee_drink'' = Some vs \<longrightarrow>
      (\<exists>s. favorite_coffee_counts T = Inr s \<and>
           sum_list (map snd s) = length (filter (\<lambda>v. \<not> isnull v) vs)))"
proof -
  have g: "\<exists>s. column_value_counts T col = Inr s \<and>
           sum_list (map snd s) = length (filter (\<lambda>v. \<not> isnull v) vs)"
    if "map_of (cols T) col = Some vs" for col vs
    using column_value_counts_Some [OF that] value_counts_total [of vs] by simp
  have p: "update_political_chart T None = column_value_counts T ''Political_Affiliation''"
    "update_political_chart T (Some []) = column_value_counts T ''Political_Affiliation''"
    by (simp_all add: update_political_chart_def)
  have f: "favorite_coffee_counts T =
           column_value_counts T ''What_is_your_favorite_coffee_drink''"
    by (simp add: favorite_coffee_counts_def)
  show ?thesis unfolding p f using g by blast
qed

theorem value_counts_sum_unfiltered_witness:
  "map_of (cols survey_table) ''Political_Affiliation'' =
     Some [VStr ''Independent'', VMissing, VStr ''Independent'', VStr ''No affiliation''] \<and>
   (\<exists>s. update_political_chart survey_table None = Inr s \<and>
        update_political_chart survey_table (Some []) = Inr s \<and>
        sum_list (map snd s) = 3)"
proof -
  let ?pa = "[VStr ''Independent'', VMissing, VStr ''Independent'', VStr ''No affiliation'']"
  have m: "map_of (cols survey_table) ''Political_Affiliation'' = Some ?pa"
    by (simp add: survey_table_def)
  have l: "length (filter (\<lambda>v. \<not> isnull v) ?pa) = 3" by (simp add: isnull_def)
  show ?thesis
    using value_counts_sum_unfiltered [of survey_table] m unfolding l [symmetric] by blast
qed

text \<open>
  Claim C9. When no row of the table has the selected value in the cups column, also when
  the value does not occur in that column at all, the callback of the age page returns the
  empty summary and raises nothing. The two columns it reads are in the table: the program
  has read and rewritten both when it started.
\<close>

theorem update_age_consumption_no_match:
  assumes "map_of (cols T) ''How_many_cups_of_coffee_do_you_typically_drink_per_day'' = Some cups"
    and "map_of (cols T) ''What_is_your_age'' = Some ages"
    and "list_all (\<lambda>v. \<not> py_eq v selected_cups) cups"
  shows "update_age_consumption T selected_cups = Inr []"
proof -
  let ?keep = "map (\<lambda>v. py_eq v selected_cups) cups"
  have "list_all (\<lambda>b. \<not> b) ?keep" using assms(3) by (simp add: list_all_iff)
  then have "map snd (filter fst (zip ?keep ages)) = []" by (rule filter_no_rows)
  then have "map_of (cols (filter_rows T ?keep)) ''What_is_your_age'' = Some []"
    by (simp add: map_of_filter_rows assms(2))
  then have "column_value_counts (filter_rows T ?keep) ''What_is_your_age'' = Inr (value_counts [])"
    by (rule column_value_counts_Some)
  then show ?thesis
    by (simp add: update_age_consumption_def getitem_def assms(1) value_counts_def)
qed

theorem update_age_consumption_no_match_witness:
  "map_of (cols survey_table) ''How_many_cups_of_coffee_do_you_typically_drink_per_day'' =
     Some [VNum 1, VNum 2, VNum 1, VMissing] \<and>
   map_of (cols survey_table) ''What_is_your_age'' =
     Some [VStr ''25-34'', VStr ''35-44'', VStr ''25-34'', VStr ''nan''] \<and>
   list_all (\<lambda>v. \<not> py_eq v (VNum 3)) [VNum 1, VNum 2, VNum 1, VMissing] \<and>
   update_age_consumption survey_table (VNum 3) = Inr []"
proof -
  have c: "map_of (cols survey_table) ''How_many_cups_of_coffee_do_you_typically_drink_per_day'' =
           Some [VNum 1, VNum 2, VNum 1, VMissing]"
    by (simp add: survey_table_def)
  have a: "map_of (cols survey_table) ''What_is_your_age'' =
           Some [VStr ''25-34'', VStr ''35-44'', VStr ''25-34'', VStr ''nan'']"
    by (simp add: survey_table_def)
  have n: "list_all (\<lambda>v. \<not> py_eq v (VNum 3)) [VNum 1, VNum 2, VNum 1, VMissing]"
    by (simp add: py_eq_def as_number_def)
  show ?thesis
    using update_age_consumption_no_match [OF c a n] c a n by blast
qed

end
